theory Spec2Isabelle
  imports Main
begin

section \<open>Data model of the dashboard (src/src/App.js)\<close>

text \<open>
  A pagination cursor is whatever the moderation client hands back in \<open>response.next\<close>:
  a string, or \<open>null\<close>/\<open>undefined\<close> (here \<open>None\<close>). The source never compares a cursor
  with \<open>null\<close>; it tests it as a JavaScript condition (\<open>cursor ? ... : ...\<close>,
  \<open>if (currentCursor)\<close>), so \<open>null\<close> and the empty string both count as "no cursor".
\<close>

type_synonym cursor = "string option"

definition truthy :: "cursor \<Rightarrow> bool" where
  "truthy c = (case c of None \<Rightarrow> False | Some s \<Rightarrow> s \<noteq> [])"

text \<open>A review-queue item as the component reads it; \<open>item_id\<close> is the field \<open>id\<close>.\<close>

record item =
  item_id :: string
  entity_type :: string
  texts :: "string list"
  images :: "string list"
  reviewed_by :: "string option"

text \<open>The eight \<open>useState\<close> cells of \<open>App\<close> (lines 22-29).\<close>

record app_state =
  reviewQueueItems :: "item list"
  reviewedItems :: "item list"
  activeTab :: nat
  selectedItem :: "item option"
  isModalOpen :: bool
  reviewQueueCursor :: cursor
  reviewedCursor :: cursor
  isLoading :: bool

definition initial_state :: app_state where
  "initial_state =
     \<lparr>reviewQueueItems = [], reviewedItems = [], activeTab = 0, selectedItem = None,
      isModalOpen = False, reviewQueueCursor = None, reviewedCursor = None,
      isLoading = False\<rparr>"

subsection \<open>The moderation client\<close>

text \<open>
  \<open>client.moderation\<close> is an external collaborator. Its two methods are parameters of the
  model: a call either throws (\<open>Inl\<close>) or resolves (\<open>Inr\<close>).
\<close>

datatype error = Error string

record query_filter =
  f_entity_type :: string
  f_reviewed :: bool
  f_has_text :: bool

type_synonym sort_field = "string \<times> int"

record query_options =
  opt_next :: cursor
  opt_limit :: nat

record response =
  items :: "item list"
  resp_next :: cursor

text \<open>The third argument of \<open>submitAction\<close>: \<open>{ delete_message: { hard_delete: b } }\<close>.\<close>

datatype action_options = DeleteMessage bool

type_synonym query_call = "query_filter \<times> sort_field list \<times> query_options"
type_synonym action_call = "string \<times> string \<times> action_options option"

record moderation =
  queryReviewQueue :: "query_filter \<Rightarrow> sort_field list \<Rightarrow> query_options \<Rightarrow> error + response"
  submitAction :: "string \<Rightarrow> string \<Rightarrow> action_options option \<Rightarrow> error + unit"

definition call_query :: "moderation \<Rightarrow> query_call \<Rightarrow> error + response" where
  "call_query client q = (case q of (flt, sorting, options) \<Rightarrow> queryReviewQueue client flt sorting options)"

definition call_action :: "moderation \<Rightarrow> action_call \<Rightarrow> error + unit" where
  "call_action client a = (case a of (name, target, options) \<Rightarrow> submitAction client name target options)"

section \<open>fetchItems (lines 31-62)\<close>

text \<open>
  An \<open>async\<close> function is split at its \<open>await\<close>: \<open>fetchItems_begin\<close> is the code that runs
  up to the adapter call (it sets the loading flag and builds the call), \<open>fetchItems_end\<close>
  is the code that runs once the call has settled (the state updaters, the \<open>catch\<close> and
  the \<open>finally\<close>). \<open>fetchItems\<close> runs both against a client.
\<close>

definition fetchItems_begin :: "bool \<Rightarrow> cursor \<Rightarrow> app_state \<Rightarrow> app_state \<times> query_call" where
  "fetchItems_begin isReviewed cursor st =
     (st\<lparr>isLoading := True\<rparr>,
      (\<lparr>f_entity_type = ''stream:chat:v1:message'', f_reviewed = isReviewed, f_has_text = True\<rparr>,
       [],
       \<lparr>opt_next = cursor, opt_limit = 25\<rparr>))"

definition fetchItems_end :: "bool \<Rightarrow> cursor \<Rightarrow> error + response \<Rightarrow> app_state \<Rightarrow> app_state" where
  "fetchItems_end isReviewed cursor outcome st =
     (case outcome of
        Inl err \<Rightarrow> st
      | Inr response \<Rightarrow>
          if isReviewed then
            st\<lparr>reviewedItems :=
                 (if truthy cursor then reviewedItems st @ items response else items response),
               reviewedCursor := resp_next response\<rparr>
          else
            st\<lparr>reviewQueueItems :=
                 (if truthy cursor then reviewQueueItems st @ items response else items response),
               reviewQueueCursor := resp_next response\<rparr>)
     \<lparr>isLoading := False\<rparr>"

definition fetchItems :: "moderation \<Rightarrow> bool \<Rightarrow> cursor \<Rightarrow> app_state \<Rightarrow> app_state" where
  "fetchItems client isReviewed cursor st =
     (case fetchItems_begin isReviewed cursor st of
        (st1, q) \<Rightarrow> fetchItems_end isReviewed cursor (call_query client q) st1)"

section \<open>handleScroll (lines 78-96)\<close>

record viewport =
  innerHeight :: int
  scrollY :: int
  scrollHeight :: int

text \<open>
  \<open>handleScroll_call\<close> is the body of the debounced handler up to its only call: the
  \<open>fetchItems\<close> call it issues, if any. The three window measures are taken in whole
  pixels.
\<close>

definition handleScroll_call :: "viewport \<Rightarrow> app_state \<Rightarrow> (bool \<times> cursor) option" where
  "handleScroll_call w st =
     (if isLoading st then None
      else
        let scrollPosition = innerHeight w + scrollY w;
            scrollThreshold = scrollHeight w - 200
        in if scrollPosition > scrollThreshold then
             let isReviewedTab = (activeTab st = 1);
                 currentCursor = (if isReviewedTab then reviewedCursor st else reviewQueueCursor st)
             in if truthy currentCursor then Some (isReviewedTab, currentCursor) else None
           else None)"

definition handleScroll :: "moderation \<Rightarrow> viewport \<Rightarrow> app_state \<Rightarrow> app_state" where
  "handleScroll client w st =
     (case handleScroll_call w st of
        None \<Rightarrow> st
      | Some (isReviewedTab, currentCursor) \<Rightarrow> fetchItems client isReviewedTab currentCursor st)"

section \<open>handleMarkReviewed (lines 239-251) and handleDelete (lines 253-265)\<close>

text \<open>
  \<open>handleMarkReviewed_call\<close> is the submission the handler makes, first thing and on every
  call. The code after the \<open>await\<close> looks the item up in the \<open>reviewQueueItems\<close> of the
  render the handler belongs to (line 243; the list \<open>seen\<close>), while its two updaters run on
  the state in which the acknowledgment arrives. \<open>handleMarkReviewed client seen itemId st\<close>
  is the whole handler, called from a render that showed the pending list \<open>seen\<close> and
  settled in the state \<open>st\<close>.
\<close>

definition handleMarkReviewed_call :: "string \<Rightarrow> action_call" where
  "handleMarkReviewed_call itemId = (''mark_reviewed'', itemId, None)"

definition handleMarkReviewed_end :: "item list \<Rightarrow> string \<Rightarrow> error + unit \<Rightarrow> app_state \<Rightarrow> app_state" where
  "handleMarkReviewed_end seen itemId outcome st =
     (case outcome of
        Inl err \<Rightarrow> st
      | Inr ack \<Rightarrow>
          let itemToMove = find (\<lambda>item. item_id item = itemId) seen;
              st1 = st\<lparr>reviewQueueItems := filter (\<lambda>item. item_id item \<noteq> itemId) (reviewQueueItems st)\<rparr>
          in case itemToMove of
               None \<Rightarrow> st1
             | Some moved \<Rightarrow> st1\<lparr>reviewedItems := moved # reviewedItems st1\<rparr>)"

definition handleMarkReviewed :: "moderation \<Rightarrow> item list \<Rightarrow> string \<Rightarrow> app_state \<Rightarrow> app_state" where
  "handleMarkReviewed client seen itemId st =
     handleMarkReviewed_end seen itemId
       (call_action client (handleMarkReviewed_call itemId)) st"

text \<open>\<open>handleDelete\<close> reads nothing from its closure: its one updater runs on the state at
  the acknowledgment.\<close>

definition handleDelete_call :: "string \<Rightarrow> action_call" where
  "handleDelete_call itemId = (''delete_message'', itemId, Some (DeleteMessage False))"

definition handleDelete_end :: "string \<Rightarrow> error + unit \<Rightarrow> app_state \<Rightarrow> app_state" where
  "handleDelete_end itemId outcome st =
     (case outcome of
        Inl err \<Rightarrow> st
      | Inr ack \<Rightarrow>
          st\<lparr>reviewQueueItems := filter (\<lambda>item. item_id item \<noteq> itemId) (reviewQueueItems st)\<rparr>)"

definition handleDelete :: "moderation \<Rightarrow> string \<Rightarrow> app_state \<Rightarrow> app_state" where
  "handleDelete client itemId st =
     handleDelete_end itemId (call_action client (handleDelete_call itemId)) st"

section \<open>formatEntityType (lines 267-278)\<close>

definition formatEntityType :: "string \<Rightarrow> string" where
  "formatEntityType entityType =
     (if entityType = ''stream:chat:v1:message'' then ''Chat Message''
      else if entityType = ''stream:feeds:v2:activity'' then ''Feeds Activity''
      else if entityType = ''stream:feeds:v2:reaction'' then ''Feeds Reaction''
      else entityType)"

section \<open>The remaining handlers\<close>

text \<open>\<open>handleTabChange\<close> (lines 409-412), the click on a list entry (lines 284-287) and the
  detail overlay's \<open>onClose\<close> (lines 561-564).\<close>

definition handleTabChange :: "nat \<Rightarrow> app_state \<Rightarrow> app_state" where
  "handleTabChange activeIndex st = st\<lparr>activeTab := activeIndex\<rparr>"

definition selectItem :: "item \<Rightarrow> app_state \<Rightarrow> app_state" where
  "selectItem it st = st\<lparr>selectedItem := Some it, isModalOpen := True\<rparr>"

definition closeDetail :: "app_state \<Rightarrow> app_state" where
  "closeDetail st = st\<lparr>isModalOpen := False, selectedItem := None\<rparr>"

section \<open>Sequential runs\<close>

text \<open>
  The events the component reacts to. \<open>FetchPage\<close> is a direct call of \<open>fetchItems\<close>; in
  the source only \<open>initializeData\<close> makes one (lines 70-73, with no cursor).

  \<open>run\<close> is the special case in which every adapter call settles before the next event
  is handled, so that a handler is settled in the state it was called in; every step comes
  with the client's behaviour at that moment. Calls that overlap are the subject of the
  next section.
\<close>

datatype event =
    FetchPage bool cursor
  | Scroll viewport
  | MarkReviewed string
  | Delete string
  | TabChange nat
  | SelectItem item
  | CloseDetail

fun handle :: "moderation \<Rightarrow> event \<Rightarrow> app_state \<Rightarrow> app_state" where
  "handle client (FetchPage isReviewed cursor) st = fetchItems client isReviewed cursor st"
| "handle client (Scroll w) st = handleScroll client w st"
| "handle client (MarkReviewed itemId) st = handleMarkReviewed client (reviewQueueItems st) itemId st"
| "handle client (Delete itemId) st = handleDelete client itemId st"
| "handle client (TabChange activeIndex) st = handleTabChange activeIndex st"
| "handle client (SelectItem it) st = selectItem it st"
| "handle client CloseDetail st = closeDetail st"

fun run :: "(moderation \<times> event) list \<Rightarrow> app_state \<Rightarrow> app_state" where
  "run [] st = st"
| "run ((client, ev) # rest) st = run rest (handle client ev st)"

fun direct_fetch :: "bool \<Rightarrow> event \<Rightarrow> bool" where
  "direct_fetch q (FetchPage isReviewed cursor) = (isReviewed = q)"
| "direct_fetch q ev = False"

section \<open>Overlapping calls\<close>

text \<open>
  Every handler suspends at its \<open>await\<close>, and other events are handled until the call
  settles: \<open>initializeData\<close> starts both first-page fetches at once (lines 70-73), and
  nothing keeps the moderator from clicking while a call is outstanding. A world is the
  component's state together with the adapter calls issued and not yet settled. Each
  outstanding call is kept with what the suspended handler resumes with: the arguments of
  \<open>fetchItems\<close>; the pending list \<open>handleMarkReviewed\<close> captured and its item id; the
  item id of \<open>handleDelete\<close>.
\<close>

datatype inflight =
    Fetching bool cursor query_call
  | Marking "item list" string action_call
  | Deleting string action_call

record world =
  store :: app_state
  awaiting :: "inflight list"

definition initial_world :: world where
  "initial_world = \<lparr>store = initial_state, awaiting = []\<rparr>"

text \<open>
  A step either starts the handler of an event, which runs up to its \<open>await\<close>, or settles
  the outstanding call at a position of the list, with the outcome the adapter gives it.
  Settling a position that holds no call of that kind does nothing.
\<close>

datatype step =
    Begin event
  | SettleQuery nat "error + response"
  | SettleAction nat "error + unit"

definition start_fetch :: "bool \<Rightarrow> cursor \<Rightarrow> world \<Rightarrow> world" where
  "start_fetch isReviewed cursor w =
     (case fetchItems_begin isReviewed cursor (store w) of
        (st1, q) \<Rightarrow> \<lparr>store = st1, awaiting = awaiting w @ [Fetching isReviewed cursor q]\<rparr>)"

fun start :: "event \<Rightarrow> world \<Rightarrow> world" where
  "start (FetchPage isReviewed cursor) w = start_fetch isReviewed cursor w"
| "start (Scroll vp) w =
     (case handleScroll_call vp (store w) of
        None \<Rightarrow> w
      | Some (isReviewedTab, currentCursor) \<Rightarrow> start_fetch isReviewedTab currentCursor w)"
| "start (MarkReviewed itemId) w =
     w\<lparr>awaiting := awaiting w @
          [Marking (reviewQueueItems (store w)) itemId (handleMarkReviewed_call itemId)]\<rparr>"
| "start (Delete itemId) w =
     w\<lparr>awaiting := awaiting w @ [Deleting itemId (handleDelete_call itemId)]\<rparr>"
| "start (TabChange activeIndex) w = w\<lparr>store := handleTabChange activeIndex (store w)\<rparr>"
| "start (SelectItem it) w = w\<lparr>store := selectItem it (store w)\<rparr>"
| "start CloseDetail w = w\<lparr>store := closeDetail (store w)\<rparr>"

definition awaited :: "nat \<Rightarrow> world \<Rightarrow> inflight option" where
  "awaited i w = (if i < length (awaiting w) then Some (awaiting w ! i) else None)"

definition without :: "nat \<Rightarrow> inflight list \<Rightarrow> inflight list" where
  "without i calls = take i calls @ drop (Suc i) calls"

definition settle_query :: "nat \<Rightarrow> error + response \<Rightarrow> world \<Rightarrow> world" where
  "settle_query i outcome w =
     (case awaited i w of
        Some (Fetching isReviewed cursor q) \<Rightarrow>
          \<lparr>store = fetchItems_end isReviewed cursor outcome (store w),
           awaiting = without i (awaiting w)\<rparr>
      | _ \<Rightarrow> w)"

definition settle_action :: "nat \<Rightarrow> error + unit \<Rightarrow> world \<Rightarrow> world" where
  "settle_action i outcome w =
     (case awaited i w of
        Some (Marking seen itemId a) \<Rightarrow>
          \<lparr>store = handleMarkReviewed_end seen itemId outcome (store w),
           awaiting = without i (awaiting w)\<rparr>
      | Some (Deleting itemId a) \<Rightarrow>
          \<lparr>store = handleDelete_end itemId outcome (store w),
           awaiting = without i (awaiting w)\<rparr>
      | _ \<Rightarrow> w)"

fun advance :: "step \<Rightarrow> world \<Rightarrow> world" where
  "advance (Begin ev) w = start ev w"
| "advance (SettleQuery i outcome) w = settle_query i outcome w"
| "advance (SettleAction i outcome) w = settle_action i outcome w"

fun play :: "step list \<Rightarrow> world \<Rightarrow> world" where
  "play [] w = w"
| "play (s # rest) w = play rest (advance s w)"

text \<open>
  A sequential run is a play: each event is started and, when it issued a call, that call
  (the last of the list) is settled at once with the client's answer.
\<close>

fun sequential :: "moderation \<Rightarrow> event \<Rightarrow> world \<Rightarrow> step list" where
  "sequential client (FetchPage isReviewed cursor) w =
     [Begin (FetchPage isReviewed cursor),
      SettleQuery (length (awaiting w))
        (call_query client (snd (fetchItems_begin isReviewed cursor (store w))))]"
| "sequential client (Scroll vp) w =
     (case handleScroll_call vp (store w) of
        None \<Rightarrow> [Begin (Scroll vp)]
      | Some (isReviewedTab, currentCursor) \<Rightarrow>
          [Begin (Scroll vp),
           SettleQuery (length (awaiting w))
             (call_query client (snd (fetchItems_begin isReviewedTab currentCursor (store w))))])"
| "sequential client (MarkReviewed itemId) w =
     [Begin (MarkReviewed itemId),
      SettleAction (length (awaiting w)) (call_action client (handleMarkReviewed_call itemId))]"
| "sequential client (Delete itemId) w =
     [Begin (Delete itemId),
      SettleAction (length (awaiting w)) (call_action client (handleDelete_call itemId))]"
| "sequential client ev w = [Begin ev]"

fun sequential_run :: "(moderation \<times> event) list \<Rightarrow> world \<Rightarrow> step list" where
  "sequential_run [] w = []"
| "sequential_run ((client, ev) # rest) w =
     sequential client ev w @ sequential_run rest (w\<lparr>store := handle client ev (store w)\<rparr>)"

fun fetch_for :: "bool \<Rightarrow> inflight \<Rightarrow> bool" where
  "fetch_for q (Fetching isReviewed cursor call) = (isReviewed = q)"
| "fetch_for q (Marking seen itemId call) = False"
| "fetch_for q (Deleting itemId call) = False"

fun direct_fetch_step :: "bool \<Rightarrow> step \<Rightarrow> bool" where
  "direct_fetch_step q (Begin ev) = direct_fetch q ev"
| "direct_fetch_step q (SettleQuery i outcome) = False"
| "direct_fetch_step q (SettleAction i outcome) = False"

section \<open>Observations used to state the properties\<close>

text \<open>A queue is selected as in the source, by the flag \<open>isReviewed\<close>.\<close>

definition queue_items :: "bool \<Rightarrow> app_state \<Rightarrow> item list" where
  "queue_items isReviewed st = (if isReviewed then reviewedItems st else reviewQueueItems st)"

definition queue_cursor :: "bool \<Rightarrow> app_state \<Rightarrow> cursor" where
  "queue_cursor isReviewed st = (if isReviewed then reviewedCursor st else reviewQueueCursor st)"

definition queues :: "app_state \<Rightarrow> item list \<times> item list \<times> cursor \<times> cursor" where
  "queues st = (reviewQueueItems st, reviewedItems st, reviewQueueCursor st, reviewedCursor st)"

definition total :: "app_state \<Rightarrow> nat" where
  "total st = length (reviewQueueItems st) + length (reviewedItems st)"

definition ids :: "item list \<Rightarrow> string list" where
  "ids xs = map item_id xs"

definition occurrences :: "string \<Rightarrow> item list \<Rightarrow> nat" where
  "occurrences itemId xs = length (filter (\<lambda>item. item_id item = itemId) xs)"

definition unique_ids :: "app_state \<Rightarrow> bool" where
  "unique_ids st = distinct (ids (reviewQueueItems st @ reviewedItems st))"

text \<open>
  The items a successful fetch keeps: the other queue's, and the fetched queue's own when
  the fetch appends. A page is fresh when its ids are pairwise different and none of them
  is the id of an item that is kept.
\<close>

definition retained :: "bool \<Rightarrow> cursor \<Rightarrow> app_state \<Rightarrow> item list" where
  "retained isReviewed cursor st =
     (if isReviewed then reviewQueueItems st @ (if truthy cursor then reviewedItems st else [])
      else (if truthy cursor then reviewQueueItems st else []) @ reviewedItems st)"

definition fresh_page :: "bool \<Rightarrow> cursor \<Rightarrow> app_state \<Rightarrow> response \<Rightarrow> bool" where
  "fresh_page isReviewed cursor st resp =
     (distinct (ids (items resp)) \<and>
      set (ids (items resp)) \<inter> set (ids (retained isReviewed cursor st)) = {})"


text \<open>
  The lookup of a settling \<open>handleMarkReviewed\<close> is current when the item it finds in its
  captured list, if any, has an id that is still in the pending queue.
\<close>

definition lookup_current :: "item list \<Rightarrow> string \<Rightarrow> app_state \<Rightarrow> bool" where
  "lookup_current seen itemId st =
     (case find (\<lambda>item. item_id item = itemId) seen of
        None \<Rightarrow> True
      | Some moved \<Rightarrow> itemId \<in> set (ids (reviewQueueItems st)))"

text \<open>
  A play is tidy when every page that a successful fetch delivers is fresh in the state
  it arrives in, and the lookup of every acknowledged \<open>handleMarkReviewed\<close> is current.
\<close>

fun tidy_step :: "step \<Rightarrow> world \<Rightarrow> bool" where
  "tidy_step (SettleQuery i (Inr resp)) w =
     (case awaited i w of
        Some (Fetching isReviewed cursor q) \<Rightarrow> fresh_page isReviewed cursor (store w) resp
      | _ \<Rightarrow> True)"
| "tidy_step (SettleAction i (Inr ack)) w =
     (case awaited i w of
        Some (Marking seen itemId a) \<Rightarrow> lookup_current seen itemId (store w)
      | _ \<Rightarrow> True)"
| "tidy_step s w = True"

fun tidy_play :: "step list \<Rightarrow> world \<Rightarrow> bool" where
  "tidy_play [] w = True"
| "tidy_play (s # rest) w = (tidy_step s w \<and> tidy_play rest (advance s w))"

section \<open>Sample clients, items and states\<close>

text \<open>Concrete inputs at which the theorems below are instantiated.\<close>

definition sample_item :: "string \<Rightarrow> item" where
  "sample_item i =
     \<lparr>item_id = i, entity_type = ''stream:chat:v1:message'', texts = [''hello''],
      images = [], reviewed_by = None\<rparr>"

text \<open>A client that answers every query with the given page and acknowledges every action.\<close>

definition page_client :: "item list \<Rightarrow> cursor \<Rightarrow> moderation" where
  "page_client page continuation =
     \<lparr>queryReviewQueue = (\<lambda>flt sorting options. Inr \<lparr>items = page, resp_next = continuation\<rparr>),
      submitAction = (\<lambda>name target options. Inr ())\<rparr>"

text \<open>A client whose every call throws.\<close>

definition broken_client :: moderation where
  "broken_client =
     \<lparr>queryReviewQueue = (\<lambda>flt sorting options. Inl (Error ''network'')),
      submitAction = (\<lambda>name target options. Inl (Error ''network''))\<rparr>"

definition at_bottom :: viewport where
  "at_bottom = \<lparr>innerHeight = 800, scrollY = 1300, scrollHeight = 2000\<rparr>"

text \<open>
  Two pages of the pending queue, loaded at start-up and by one scroll. Between the two
  queries an item arrived at the head of the backend's list, so \<open>m2\<close> moved onto the
  second page and is delivered twice.
\<close>

definition drifted_load :: "(moderation \<times> event) list" where
  "drifted_load =
     [(page_client [sample_item ''m1'', sample_item ''m2''] (Some ''c1''), FetchPage False None),
      (page_client [sample_item ''m2'', sample_item ''m3''] None, Scroll at_bottom)]"

text \<open>One page in each queue, with a further page of reviewed items to come.\<close>

definition two_queues :: app_state where
  "two_queues =
     initial_state
       \<lparr>reviewQueueItems := [sample_item ''m1'', sample_item ''m2''],
        reviewedItems := [sample_item ''r1''],
        reviewedCursor := Some ''c7''\<rparr>"

text \<open>
  Start-up as \<open>initializeData\<close> does it: both first-page fetches are started, then both
  answers arrive. The store is then \<open>two_queues\<close>.
\<close>

definition startup :: "step list" where
  "startup =
     [Begin (FetchPage False None),
      Begin (FetchPage True None),
      SettleQuery 0 (Inr \<lparr>items = [sample_item ''m1'', sample_item ''m2''], resp_next = None\<rparr>),
      SettleQuery 0 (Inr \<lparr>items = [sample_item ''r1''], resp_next = Some ''c7''\<rparr>)]"

text \<open>
  The moderator clicks "Mark reviewed" on \<open>m1\<close> twice before the first acknowledgment
  arrives; then the first acknowledgment arrives. The second call is still outstanding.
\<close>

definition double_click :: "step list" where
  "double_click =
     [Begin (MarkReviewed ''m1''),
      Begin (MarkReviewed ''m1''),
      SettleAction 0 (Inr ())]"

text \<open>
  Both start-up fetches are outstanding when the pending page arrives, which clears the
  loading flag; a scroll then fetches the second pending page. The reviewed page arrives
  and clears the flag again, with that fetch still outstanding, so a second scroll fetches
  the same page once more. The first of the two answers ends the queue.
\<close>

definition overlapping_scrolls :: "step list" where
  "overlapping_scrolls =
     [Begin (FetchPage False None),
      Begin (FetchPage True None),
      SettleQuery 0 (Inr \<lparr>items = [sample_item ''m1''], resp_next = Some ''c1''\<rparr>),
      Begin (Scroll at_bottom),
      SettleQuery 0 (Inr \<lparr>items = [sample_item ''r1''], resp_next = None\<rparr>),
      Begin (Scroll at_bottom),
      SettleQuery 0 (Inr \<lparr>items = [sample_item ''m2''], resp_next = None\<rparr>)]"

text \<open>
  After start-up: a mark-reviewed and a delete overlap and are acknowledged in the other
  order; the reviewed tab is opened and scrolled, and its last page arrives.
\<close>

definition busy_session :: "step list" where
  "busy_session =
     [Begin (MarkReviewed ''m1''),
      Begin (Delete ''m2''),
      SettleAction 1 (Inr ()),
      SettleAction 0 (Inr ()),
      Begin (TabChange 1),
      Begin (Scroll at_bottom),
      SettleQuery 0 (Inr \<lparr>items = [sample_item ''r2''], resp_next = None\<rparr>),
      Begin (TabChange 0),
      Begin (Scroll at_bottom)]"

section \<open>Properties\<close>

subsection \<open>Unfolding the handlers\<close>

lemma fetchItems_run:
  "fetchItems client isReviewed cursor st =
     fetchItems_end isReviewed cursor
       (call_query client (snd (fetchItems_begin isReviewed cursor st))) (st\<lparr>isLoading := True\<rparr>)"
  by (simp add: fetchItems_def fetchItems_begin_def)

lemma fetchItems_end_failed [simp]:
  "fetchItems_end isReviewed cursor (Inl err) st = st\<lparr>isLoading := False\<rparr>"
  by (simp add: fetchItems_end_def)

lemma fetchItems_end_items [simp]:
  "queue_items q (fetchItems_end isReviewed cursor (Inr resp) st) =
     (if q = isReviewed
      then (if truthy cursor then queue_items q st @ items resp else items resp)
      else queue_items q st)"
  by (simp add: fetchItems_end_def queue_items_def)

lemma fetchItems_end_cursor [simp]:
  "queue_cursor q (fetchItems_end isReviewed cursor (Inr resp) st) =
     (if q = isReviewed then resp_next resp else queue_cursor q st)"
  by (simp add: fetchItems_end_def queue_cursor_def)

lemma queue_items_loading [simp]: "queue_items q (st\<lparr>isLoading := b\<rparr>) = queue_items q st"
  by (simp add: queue_items_def)

lemma queue_cursor_loading [simp]: "queue_cursor q (st\<lparr>isLoading := b\<rparr>) = queue_cursor q st"
  by (simp add: queue_cursor_def)

text \<open>
  Claim C10. \<open>formatEntityType\<close> maps the three known tags to their display names and is
  the identity on every other string.
\<close>

theorem formatEntityType_table:
  "formatEntityType ''stream:chat:v1:message'' = ''Chat Message'' \<and>
   formatEntityType ''stream:feeds:v2:activity'' = ''Feeds Activity'' \<and>
   formatEntityType ''stream:feeds:v2:reaction'' = ''Feeds Reaction'' \<and>
   (entityType \<notin> {''stream:chat:v1:message'', ''stream:feeds:v2:activity'',
                    ''stream:feeds:v2:reaction''} \<longrightarrow>
    formatEntityType entityType = entityType)"
  by (simp add: formatEntityType_def)

theorem formatEntityType_table_witness:
  "''stream:video:v1:call'' \<notin> {''stream:chat:v1:message'', ''stream:feeds:v2:activity'',
                                 ''stream:feeds:v2:reaction''} \<and>
   formatEntityType ''stream:video:v1:call'' = ''stream:video:v1:call''"
  using formatEntityType_table [of "''stream:video:v1:call''"] by simp

text \<open>
  Claim C8. Whatever the state and the cursor, the call \<open>fetchItems\<close> builds for the
  adapter has the chat-message entity type, \<open>reviewed\<close> equal to the queue flag,
  \<open>has_text\<close> true, no sort fields and the limit 25; \<open>fetchItems\<close> hands exactly this
  call to the client.
\<close>

theorem fetchItems_query_fixed:
  "snd (fetchItems_begin isReviewed cursor st) =
     (\<lparr>f_entity_type = ''stream:chat:v1:message'', f_reviewed = isReviewed, f_has_text = True\<rparr>,
      [], \<lparr>opt_next = cursor, opt_limit = 25\<rparr>) \<and>
   fetchItems client isReviewed cursor st =
     fetchItems_end isReviewed cursor
       (queryReviewQueue client
          \<lparr>f_entity_type = ''stream:chat:v1:message'', f_reviewed = isReviewed, f_has_text = True\<rparr>
          [] \<lparr>opt_next = cursor, opt_limit = 25\<rparr>)
       (fst (fetchItems_begin isReviewed cursor st))"
  by (simp add: fetchItems_def fetchItems_begin_def call_query_def)

text \<open>
  Claim C2. After a fetch that succeeds, the fetched queue holds its old items followed
  by the page when a cursor was passed, and exactly the page when none was; its cursor is
  the page's continuation cursor. The source decides "a cursor was passed" by the
  JavaScript condition \<open>cursor ? ... : ...\<close>, that is \<open>truthy\<close>.
\<close>

theorem fetchItems_success:
  assumes "call_query client (snd (fetchItems_begin isReviewed cursor st)) = Inr resp"
  shows "(truthy cursor \<longrightarrow>
            queue_items isReviewed (fetchItems client isReviewed cursor st) =
              queue_items isReviewed st @ items resp) \<and>
         (\<not> truthy cursor \<longrightarrow>
            queue_items isReviewed (fetchItems client isReviewed cursor st) = items resp) \<and>
         queue_cursor isReviewed (fetchItems client isReviewed cursor st) = resp_next resp"
  using assms by (simp add: fetchItems_run)

theorem fetchItems_success_witness:
  "call_query (page_client [sample_item ''r2''] None)
     (snd (fetchItems_begin True (Some ''c7'') two_queues)) =
     Inr \<lparr>items = [sample_item ''r2''], resp_next = None\<rparr> \<and>
   truthy (Some ''c7'') \<and>
   queue_items True (fetchItems (page_client [sample_item ''r2''] None) True (Some ''c7'') two_queues) =
     [sample_item ''r1'', sample_item ''r2''] \<and>
   queue_cursor True (fetchItems (page_client [sample_item ''r2''] None) True (Some ''c7'') two_queues) =
     None \<and>
   call_query (page_client [sample_item ''m9''] (Some ''c2''))
     (snd (fetchItems_begin False None two_queues)) =
     Inr \<lparr>items = [sample_item ''m9''], resp_next = Some ''c2''\<rparr> \<and>
   \<not> truthy None \<and>
   queue_items False (fetchItems (page_client [sample_item ''m9''] (Some ''c2'')) False None two_queues) =
     [sample_item ''m9''] \<and>
   queue_cursor False (fetchItems (page_client [sample_item ''m9''] (Some ''c2'')) False None two_queues) =
     Some ''c2''"
  using fetchItems_success [of "page_client [sample_item ''r2''] None" True "Some ''c7''" two_queues
          "\<lparr>items = [sample_item ''r2''], resp_next = None\<rparr>"]
        fetchItems_success [of "page_client [sample_item ''m9''] (Some ''c2'')" False None two_queues
          "\<lparr>items = [sample_item ''m9''], resp_next = Some ''c2''\<rparr>"]
  by (simp add: call_query_def page_client_def fetchItems_begin_def truthy_def two_queues_def
        initial_state_def queue_items_def)

text \<open>
  Claim C6. \<open>fetchItems\<close> is its first half followed by its second half: the adapter is
  called with the call the first half built, in the state the first half left, and that
  state has the loading flag set; the second half runs on the outcome and leaves the flag
  clear, whether the call resolved or threw and whatever happened to the state in between.
\<close>

theorem fetchItems_loading_flag:
  "fetchItems client isReviewed cursor st =
     fetchItems_end isReviewed cursor
       (call_query client (snd (fetchItems_begin isReviewed cursor st)))
       (fst (fetchItems_begin isReviewed cursor st)) \<and>
   fst (fetchItems_begin isReviewed cursor st) = st\<lparr>isLoading := True\<rparr> \<and>
   isLoading (fst (fetchItems_begin isReviewed cursor st)) \<and>
   \<not> isLoading (fetchItems_end isReviewed cursor (Inr resp) st1) \<and>
   \<not> isLoading (fetchItems_end isReviewed cursor (Inl err) st1) \<and>
   \<not> isLoading (fetchItems client isReviewed cursor st) \<and>
   store (start (FetchPage isReviewed cursor) w) = (store w)\<lparr>isLoading := True\<rparr> \<and>
   awaiting (start (FetchPage isReviewed cursor) w) =
     awaiting w @ [Fetching isReviewed cursor (snd (fetchItems_begin isReviewed cursor (store w)))]"
  by (simp add: fetchItems_def fetchItems_begin_def fetchItems_end_def start_fetch_def
        split: sum.split)

text \<open>
  Claim C3. When the adapter call of \<open>fetchItems\<close>, \<open>handleMarkReviewed\<close> or
  \<open>handleDelete\<close> throws, both item lists and both cursors are what they were before
  the call (for \<open>handleMarkReviewed\<close>: whatever pending list its render showed).
\<close>

theorem failed_call_keeps_queues:
  "(call_query client (snd (fetchItems_begin isReviewed cursor st)) = Inl err \<longrightarrow>
      queues (fetchItems client isReviewed cursor st) = queues st) \<and>
   (call_action client (handleMarkReviewed_call itemId) = Inl err \<longrightarrow>
      queues (handleMarkReviewed client seen itemId st) = queues st) \<and>
   (call_action client (handleDelete_call itemId) = Inl err \<longrightarrow>
      queues (handleDelete client itemId st) = queues st)"
  by (simp add: fetchItems_run queues_def handleMarkReviewed_def handleMarkReviewed_end_def
        handleDelete_def handleDelete_end_def)

theorem failed_call_keeps_queues_witness:
  "call_query broken_client (snd (fetchItems_begin True (Some ''c7'') two_queues)) =
     Inl (Error ''network'') \<and>
   queues (fetchItems broken_client True (Some ''c7'') two_queues) = queues two_queues \<and>
   call_action broken_client (handleMarkReviewed_call ''m1'') = Inl (Error ''network'') \<and>
   queues (handleMarkReviewed broken_client (reviewQueueItems two_queues) ''m1'' two_queues) =
     queues two_queues \<and>
   call_action broken_client (handleDelete_call ''m1'') = Inl (Error ''network'') \<and>
   queues (handleDelete broken_client ''m1'' two_queues) = queues two_queues \<and>
   queues two_queues =
     ([sample_item ''m1'', sample_item ''m2''], [sample_item ''r1''], None, Some ''c7'')"
  using failed_call_keeps_queues [of broken_client True "Some ''c7''" two_queues
          "Error ''network''" "''m1''" "reviewQueueItems two_queues"]
  by (simp add: call_query_def call_action_def broken_client_def fetchItems_begin_def
        handleMarkReviewed_call_def handleDelete_call_def queues_def two_queues_def
        initial_state_def)

subsection \<open>Looking an id up in a list\<close>

lemma find_absent: "itemId \<notin> set (ids xs) \<Longrightarrow> find (\<lambda>item. item_id item = itemId) xs = None"
  by (induction xs) (auto simp: ids_def)

lemma filter_absent: "itemId \<notin> set (ids xs) \<Longrightarrow> filter (\<lambda>item. item_id item \<noteq> itemId) xs = xs"
  by (induction xs) (auto simp: ids_def)

lemma find_absent_iff:
  "find (\<lambda>item. item_id item = itemId) xs = None \<longleftrightarrow> itemId \<notin> set (ids xs)"
  by (induction xs) (auto simp: ids_def)

lemma id_filtered_out: "itemId \<notin> set (ids (filter (\<lambda>item. item_id item \<noteq> itemId) xs))"
  by (auto simp: ids_def)

lemma length_filtered:
  "length (filter (\<lambda>item. item_id item \<noteq> itemId) xs) + occurrences itemId xs = length xs"
  using sum_length_filter_compl [of "\<lambda>item. item_id item = itemId" xs]
  by (simp add: occurrences_def)

lemma handleMarkReviewed_acked:
  "call_action client (handleMarkReviewed_call itemId) = Inr ack \<Longrightarrow>
   handleMarkReviewed client seen itemId st =
     (case find (\<lambda>item. item_id item = itemId) seen of
        None \<Rightarrow> st\<lparr>reviewQueueItems := filter (\<lambda>item. item_id item \<noteq> itemId) (reviewQueueItems st)\<rparr>
      | Some moved \<Rightarrow>
          st\<lparr>reviewQueueItems := filter (\<lambda>item. item_id item \<noteq> itemId) (reviewQueueItems st),
             reviewedItems := moved # reviewedItems st\<rparr>)"
  by (simp add: handleMarkReviewed_def handleMarkReviewed_end_def Let_def split: option.split)

lemma handleDelete_acked:
  "call_action client (handleDelete_call itemId) = Inr ack \<Longrightarrow>
   handleDelete client itemId st =
     st\<lparr>reviewQueueItems := filter (\<lambda>item. item_id item \<noteq> itemId) (reviewQueueItems st)\<rparr>"
  by (simp add: handleDelete_def handleDelete_end_def)

lemma drifted_load_state:
  "run drifted_load initial_state =
     initial_state
       \<lparr>reviewQueueItems :=
          [sample_item ''m1'', sample_item ''m2'', sample_item ''m2'', sample_item ''m3'']\<rparr>"
  by (simp add: drifted_load_def initial_state_def fetchItems_run fetchItems_begin_def
        fetchItems_end_def call_query_def page_client_def handleScroll_def handleScroll_call_def
        at_bottom_def truthy_def)

text \<open>
  Claim C7, as stated, fails when the id is listed more than once in the pending queue,
  as \<open>m2\<close> is after the two page loads of \<open>drifted_load\<close>: deleting \<open>m2\<close> takes the
  total from 4 to 2.
\<close>

theorem delete_total_counterexample:
  "''m2'' \<in> set (ids (reviewQueueItems (run drifted_load initial_state))) \<and>
   call_action (page_client [] None) (handleDelete_call ''m2'') = Inr () \<and>
   total (run drifted_load initial_state) = 4 \<and>
   total (handleDelete (page_client [] None) ''m2'' (run drifted_load initial_state)) = 2 \<and>
   total (handleDelete (page_client [] None) ''m2'' (run drifted_load initial_state)) + 1 \<noteq>
     total (run drifted_load initial_state)"
  unfolding drifted_load_state
  by (simp add: handleDelete_def handleDelete_call_def
        handleDelete_end_def call_action_def page_client_def initial_state_def
        total_def ids_def sample_item_def)

text \<open>
  Claim C7, amended. An acknowledged \<open>handleDelete\<close> removes every pending item with the
  id (the other pending items stay, in order) and does not touch the reviewed queue. The
  total number of items falls by the number of pending items with that id; it falls by
  exactly one when the id is listed exactly once.
\<close>

theorem delete_removes_item:
  assumes "call_action client (handleDelete_call itemId) = Inr ack"
  shows "itemId \<notin> set (ids (reviewQueueItems (handleDelete client itemId st))) \<and>
         reviewQueueItems (handleDelete client itemId st) =
           filter (\<lambda>item. item_id item \<noteq> itemId) (reviewQueueItems st) \<and>
         reviewedItems (handleDelete client itemId st) = reviewedItems st \<and>
         total (handleDelete client itemId st) + occurrences itemId (reviewQueueItems st) =
           total st \<and>
         (occurrences itemId (reviewQueueItems st) = 1 \<longrightarrow>
            total (handleDelete client itemId st) + 1 = total st)"
proof -
  have after: "handleDelete client itemId st =
      st\<lparr>reviewQueueItems := filter (\<lambda>item. item_id item \<noteq> itemId) (reviewQueueItems st)\<rparr>"
    using assms by (rule handleDelete_acked)
  have count: "total (handleDelete client itemId st) + occurrences itemId (reviewQueueItems st) =
      total st"
    using length_filtered [of itemId "reviewQueueItems st"] by (simp add: after total_def)
  then have once: "occurrences itemId (reviewQueueItems st) = 1 \<longrightarrow>
      total (handleDelete client itemId st) + 1 = total st"
    by simp
  have gone: "itemId \<notin> set (ids (reviewQueueItems (handleDelete client itemId st)))"
    by (simp add: after id_filtered_out)
  have kept: "reviewQueueItems (handleDelete client itemId st) =
      filter (\<lambda>item. item_id item \<noteq> itemId) (reviewQueueItems st)"
    by (simp add: after)
  have other: "reviewedItems (handleDelete client itemId st) = reviewedItems st"
    by (simp add: after)
  from gone kept other count once show ?thesis
    by blast
qed

theorem delete_removes_item_witness:
  "call_action (page_client [] None) (handleDelete_call ''m1'') = Inr () \<and>
   ''m1'' \<in> set (ids (reviewQueueItems two_queues)) \<and>
   occurrences ''m1'' (reviewQueueItems two_queues) = 1 \<and>
   reviewQueueItems (handleDelete (page_client [] None) ''m1'' two_queues) = [sample_item ''m2''] \<and>
   reviewedItems (handleDelete (page_client [] None) ''m1'' two_queues) = [sample_item ''r1''] \<and>
   total (handleDelete (page_client [] None) ''m1'' two_queues) + 1 = total two_queues \<and>
   total two_queues = 3"
proof -
  have ack: "call_action (page_client [] None) (handleDelete_call ''m1'') = Inr ()"
    by (simp add: call_action_def handleDelete_call_def page_client_def)
  have present: "''m1'' \<in> set (ids (reviewQueueItems two_queues))"
    by (simp add: two_queues_def initial_state_def ids_def sample_item_def)
  have once: "occurrences ''m1'' (reviewQueueItems two_queues) = 1"
    by (simp add: two_queues_def initial_state_def occurrences_def sample_item_def)
  have pending: "reviewQueueItems (handleDelete (page_client [] None) ''m1'' two_queues) =
      [sample_item ''m2'']"
    by (simp add: handleDelete_acked [OF ack] two_queues_def initial_state_def sample_item_def)
  have reviewed: "reviewedItems (handleDelete (page_client [] None) ''m1'' two_queues) =
      [sample_item ''r1'']"
    by (simp add: handleDelete_acked [OF ack] two_queues_def initial_state_def)
  have before: "total two_queues = 3"
    by (simp add: two_queues_def initial_state_def total_def)
  from delete_removes_item [OF ack, of two_queues] once
  have "total (handleDelete (page_client [] None) ''m1'' two_queues) + 1 = total two_queues"
    by blast
  with ack present once pending reviewed before show ?thesis
    by blast
qed


subsection \<open>Plays\<close>

lemma play_append: "play (xs @ ys) w = play ys (play xs w)"
  by (induction xs arbitrary: w) simp_all

lemma without_last: "without (length calls) (calls @ [c]) = calls"
  by (simp add: without_def)

lemma set_without: "set (without i calls) \<subseteq> set calls"
  using set_take_subset [of i calls] set_drop_subset [of "Suc i" calls]
  by (auto simp: without_def)

lemma awaited_in: "awaited i w = Some c \<Longrightarrow> c \<in> set (awaiting w)"
  by (auto simp: awaited_def split: if_splits)

lemma settle_last_query:
  "settle_query (length (awaiting w)) outcome
     \<lparr>store = st1, awaiting = awaiting w @ [Fetching isReviewed cursor q]\<rparr> =
   \<lparr>store = fetchItems_end isReviewed cursor outcome st1, awaiting = awaiting w\<rparr>"
  by (simp add: settle_query_def awaited_def without_last)

lemma settle_last_action:
  "settle_action (length (awaiting w)) outcome (w\<lparr>awaiting := awaiting w @ [Marking seen itemId a]\<rparr>) =
     w\<lparr>store := handleMarkReviewed_end seen itemId outcome (store w)\<rparr>"
  "settle_action (length (awaiting w)) outcome (w\<lparr>awaiting := awaiting w @ [Deleting itemId a]\<rparr>) =
     w\<lparr>store := handleDelete_end itemId outcome (store w)\<rparr>"
  by (simp_all add: settle_action_def awaited_def without_last)

lemma play_sequential:
  "play (sequential client ev w) w = w\<lparr>store := handle client ev (store w)\<rparr>"
proof (cases ev)
  case (FetchPage isReviewed cursor)
  then show ?thesis
    by (simp add: start_fetch_def fetchItems_def settle_last_query split: prod.split)
next
  case (Scroll vp)
  then show ?thesis
    by (cases "handleScroll_call vp (store w)")
       (auto simp: handleScroll_def start_fetch_def fetchItems_def settle_last_query
          split: prod.split)
next
  case (MarkReviewed itemId)
  then show ?thesis
    by (simp add: handleMarkReviewed_def settle_last_action)
next
  case (Delete itemId)
  then show ?thesis
    by (simp add: handleDelete_def settle_last_action)
qed simp_all

lemma play_sequential_run:
  "play (sequential_run steps w) w = w\<lparr>store := run steps (store w)\<rparr>"
proof (induction steps arbitrary: w)
  case Nil
  then show ?case by simp
next
  case (Cons step steps)
  obtain client ev where step: "step = (client, ev)"
    by (cases step)
  show ?case
    using Cons.IH [of "w\<lparr>store := handle client ev (store w)\<rparr>"]
    by (simp add: step play_append play_sequential)
qed

lemma startup_world: "play startup initial_world = \<lparr>store = two_queues, awaiting = []\<rparr>"
  by (simp add: startup_def initial_world_def initial_state_def two_queues_def start_fetch_def
        fetchItems_begin_def fetchItems_end_def settle_query_def awaited_def without_def
        truthy_def)

lemma double_click_world:
  "play (startup @ double_click) initial_world =
     \<lparr>store = two_queues
        \<lparr>reviewQueueItems := [sample_item ''m2''],
         reviewedItems := [sample_item ''m1'', sample_item ''r1'']\<rparr>,
      awaiting =
        [Marking [sample_item ''m1'', sample_item ''m2''] ''m1'' (''mark_reviewed'', ''m1'', None)]\<rparr>"
  unfolding play_append startup_world
  by (simp add: double_click_def two_queues_def initial_state_def settle_action_def awaited_def
        without_def handleMarkReviewed_end_def handleMarkReviewed_call_def sample_item_def)

lemma double_click_settled:
  "play (startup @ double_click @ [SettleAction 0 (Inr ())]) initial_world =
     \<lparr>store = two_queues
        \<lparr>reviewQueueItems := [sample_item ''m2''],
         reviewedItems := [sample_item ''m1'', sample_item ''m1'', sample_item ''r1'']\<rparr>,
      awaiting = []\<rparr>"
  using double_click_world
  by (simp add: play_append two_queues_def initial_state_def settle_action_def awaited_def
        without_def handleMarkReviewed_end_def sample_item_def)

lemma markReviewed_nothing_to_move:
  assumes "itemId \<notin> set (ids seen)" and "itemId \<notin> set (ids (reviewQueueItems st))"
  shows "handleMarkReviewed client seen itemId st = st"
  using assms
  by (simp add: handleMarkReviewed_def handleMarkReviewed_end_def find_absent filter_absent
        split: sum.split)


text \<open>
  Claim C1, as stated, fails in two ways. The store never compares ids, and the filter
  drops every pending item with the id while one item is prepended: after the two page
  loads of \<open>drifted_load\<close> the pending queue lists \<open>m2\<close> twice, and marking it reviewed
  takes the total from 4 to 3. And the item is looked up in the list of the render in
  which the button was clicked: at the second click of \<open>double_click\<close> the id \<open>m1\<close> is in
  the pending queue, and the acknowledgment of that call takes the total from 3 to 4.
\<close>

theorem markReviewed_total_counterexample:
  "''m2'' \<in> set (ids (reviewQueueItems (run drifted_load initial_state))) \<and>
   call_action (page_client [] None) (handleMarkReviewed_call ''m2'') = Inr () \<and>
   total (run drifted_load initial_state) = 4 \<and>
   total (handleMarkReviewed (page_client [] None) (reviewQueueItems (run drifted_load initial_state))
            ''m2'' (run drifted_load initial_state)) = 3 \<and>
   ''m1'' \<in> set (ids (reviewQueueItems
      (store (play (startup @ [Begin (MarkReviewed ''m1'')]) initial_world)))) \<and>
   total (store (play (startup @ [Begin (MarkReviewed ''m1'')]) initial_world)) = 3 \<and>
   total (store (play (startup @ double_click) initial_world)) = 3 \<and>
   total (store (play (startup @ double_click @ [SettleAction 0 (Inr ())]) initial_world)) = 4"
proof -
  have drifted: "''m2'' \<in> set (ids (reviewQueueItems (run drifted_load initial_state))) \<and>
      call_action (page_client [] None) (handleMarkReviewed_call ''m2'') = Inr () \<and>
      total (run drifted_load initial_state) = 4 \<and>
      total (handleMarkReviewed (page_client [] None) (reviewQueueItems (run drifted_load initial_state))
               ''m2'' (run drifted_load initial_state)) = 3"
    unfolding drifted_load_state
    by (simp add: handleMarkReviewed_def handleMarkReviewed_call_def
          handleMarkReviewed_end_def call_action_def page_client_def initial_state_def
          total_def ids_def sample_item_def)
  have clicked: "play (startup @ [Begin (MarkReviewed ''m1'')]) initial_world =
      \<lparr>store = two_queues,
       awaiting =
         [Marking [sample_item ''m1'', sample_item ''m2''] ''m1'' (handleMarkReviewed_call ''m1'')]\<rparr>"
    unfolding play_append startup_world
    by (simp add: two_queues_def initial_state_def)
  have stale: "''m1'' \<in> set (ids (reviewQueueItems
        (store (play (startup @ [Begin (MarkReviewed ''m1'')]) initial_world)))) \<and>
      total (store (play (startup @ [Begin (MarkReviewed ''m1'')]) initial_world)) = 3 \<and>
      total (store (play (startup @ double_click) initial_world)) = 3 \<and>
      total (store (play (startup @ double_click @ [SettleAction 0 (Inr ())]) initial_world)) = 4"
    unfolding clicked double_click_world double_click_settled
    by (simp add: two_queues_def initial_state_def total_def ids_def sample_item_def)
  from drifted stale show ?thesis
    by blast
qed

lemma lookup_in_own_state:
  assumes "itemId \<in> set (ids (reviewQueueItems st))"
  shows "\<exists>moved. find (\<lambda>item. item_id item = itemId) (reviewQueueItems st) = Some moved \<and>
           moved \<in> set (reviewQueueItems st)"
proof -
  obtain moved where "find (\<lambda>item. item_id item = itemId) (reviewQueueItems st) = Some moved"
    using assms find_absent_iff [of itemId "reviewQueueItems st"] by auto
  then show ?thesis
    by (auto simp: find_Some_iff)
qed

text \<open>
  Claim C1, amended. Let the handler find an item under the id in the pending list its
  render showed, and let that item still be in the pending queue when the acknowledgment
  arrives (as it is when nothing changed the queue in between, \<open>lookup_in_own_state\<close>).
  Then the acknowledged \<open>handleMarkReviewed\<close> removes every pending item with that id
  (the other pending items stay, in order) and puts that item at the head of the reviewed
  queue. The total number of items falls by the number of further pending items with
  that id; it is unchanged when the id is listed exactly once.
\<close>

theorem markReviewed_moves_item:
  assumes "call_action client (handleMarkReviewed_call itemId) = Inr ack"
    and "find (\<lambda>item. item_id item = itemId) seen = Some moved"
    and "moved \<in> set (reviewQueueItems st)"
  shows "item_id moved = itemId \<and>
         itemId \<notin> set (ids (reviewQueueItems (handleMarkReviewed client seen itemId st))) \<and>
         reviewQueueItems (handleMarkReviewed client seen itemId st) =
           filter (\<lambda>item. item_id item \<noteq> itemId) (reviewQueueItems st) \<and>
         reviewedItems (handleMarkReviewed client seen itemId st) = moved # reviewedItems st \<and>
         total (handleMarkReviewed client seen itemId st) + occurrences itemId (reviewQueueItems st) =
           total st + 1 \<and>
         (occurrences itemId (reviewQueueItems st) = 1 \<longrightarrow>
            total (handleMarkReviewed client seen itemId st) = total st)"
proof -
  from assms(2) have same: "item_id moved = itemId"
    by (auto simp: find_Some_iff)
  have after: "handleMarkReviewed client seen itemId st =
      st\<lparr>reviewQueueItems := filter (\<lambda>item. item_id item \<noteq> itemId) (reviewQueueItems st),
         reviewedItems := moved # reviewedItems st\<rparr>"
    using handleMarkReviewed_acked [OF assms(1), of seen st] assms(2) by simp
  have count: "total (handleMarkReviewed client seen itemId st) + occurrences itemId (reviewQueueItems st) =
      total st + 1"
    using length_filtered [of itemId "reviewQueueItems st"] by (simp add: after total_def)
  have gone: "itemId \<notin> set (ids (reviewQueueItems (handleMarkReviewed client seen itemId st)))"
    by (simp add: after id_filtered_out)
  have kept: "reviewQueueItems (handleMarkReviewed client seen itemId st) =
      filter (\<lambda>item. item_id item \<noteq> itemId) (reviewQueueItems st)"
    by (simp add: after)
  have head: "reviewedItems (handleMarkReviewed client seen itemId st) = moved # reviewedItems st"
    by (simp add: after)
  from count have once: "occurrences itemId (reviewQueueItems st) = 1 \<longrightarrow>
      total (handleMarkReviewed client seen itemId st) = total st"
    by simp
  from same gone kept head count once show ?thesis
    by blast
qed

text \<open>The witness: \<open>m1\<close> is marked reviewed in \<open>two_queues\<close>, and a delete of \<open>m2\<close> is
  acknowledged between the click and the acknowledgment.\<close>

theorem markReviewed_moves_item_witness:
  "call_action (page_client [] None) (handleMarkReviewed_call ''m1'') = Inr () \<and>
   find (\<lambda>item. item_id item = ''m1'') (reviewQueueItems two_queues) = Some (sample_item ''m1'') \<and>
   sample_item ''m1'' \<in> set (reviewQueueItems (handleDelete (page_client [] None) ''m2'' two_queues)) \<and>
   occurrences ''m1'' (reviewQueueItems (handleDelete (page_client [] None) ''m2'' two_queues)) = 1 \<and>
   reviewQueueItems (handleMarkReviewed (page_client [] None) (reviewQueueItems two_queues) ''m1''
      (handleDelete (page_client [] None) ''m2'' two_queues)) = [] \<and>
   reviewedItems (handleMarkReviewed (page_client [] None) (reviewQueueItems two_queues) ''m1''
      (handleDelete (page_client [] None) ''m2'' two_queues)) =
     [sample_item ''m1'', sample_item ''r1''] \<and>
   total (handleMarkReviewed (page_client [] None) (reviewQueueItems two_queues) ''m1''
      (handleDelete (page_client [] None) ''m2'' two_queues)) =
     total (handleDelete (page_client [] None) ''m2'' two_queues) \<and>
   total (handleDelete (page_client [] None) ''m2'' two_queues) = 2"
proof -
  have ack: "call_action (page_client [] None) (handleMarkReviewed_call ''m1'') = Inr ()"
    by (simp add: call_action_def handleMarkReviewed_call_def page_client_def)
  have deleted: "handleDelete (page_client [] None) ''m2'' two_queues =
      two_queues\<lparr>reviewQueueItems := [sample_item ''m1'']\<rparr>"
    by (simp add: handleDelete_def handleDelete_end_def handleDelete_call_def call_action_def
          page_client_def two_queues_def initial_state_def sample_item_def)
  have found: "find (\<lambda>item. item_id item = ''m1'') (reviewQueueItems two_queues) =
      Some (sample_item ''m1'')"
    by (simp add: two_queues_def initial_state_def sample_item_def)
  have still: "sample_item ''m1'' \<in>
      set (reviewQueueItems (handleDelete (page_client [] None) ''m2'' two_queues))"
    unfolding deleted by simp
  have once: "occurrences ''m1''
      (reviewQueueItems (handleDelete (page_client [] None) ''m2'' two_queues)) = 1"
    unfolding deleted by (simp add: occurrences_def sample_item_def)
  have before: "total (handleDelete (page_client [] None) ''m2'' two_queues) = 2"
    unfolding deleted by (simp add: total_def two_queues_def initial_state_def)
  note moved = markReviewed_moves_item [OF ack found still]
  from moved once
  have pending: "reviewQueueItems (handleMarkReviewed (page_client [] None) (reviewQueueItems two_queues)
      ''m1'' (handleDelete (page_client [] None) ''m2'' two_queues)) = []"
    unfolding deleted by (simp add: sample_item_def)
  from moved
  have reviewed: "reviewedItems (handleMarkReviewed (page_client [] None) (reviewQueueItems two_queues)
      ''m1'' (handleDelete (page_client [] None) ''m2'' two_queues)) =
      [sample_item ''m1'', sample_item ''r1'']"
    unfolding deleted by (simp add: two_queues_def initial_state_def)
  from moved once
  have same: "total (handleMarkReviewed (page_client [] None) (reviewQueueItems two_queues) ''m1''
      (handleDelete (page_client [] None) ''m2'' two_queues)) =
      total (handleDelete (page_client [] None) ''m2'' two_queues)"
    by blast
  from ack found still once pending reviewed same before show ?thesis
    by blast
qed

subsection \<open>Ids stay unique\<close>

lemma ids_append: "ids (xs @ ys) = ids xs @ ids ys"
  by (simp add: ids_def)

lemma distinct_ids_filter:
  "distinct (ids (pending @ reviewed)) \<Longrightarrow> distinct (ids (filter keep pending @ reviewed))"
  by (auto simp: ids_def distinct_map_filter)

lemma distinct_ids_move:
  assumes "distinct (ids (pending @ reviewed))" and "item_id moved \<in> set (ids pending)"
  shows "distinct
    (ids (filter (\<lambda>item. item_id item \<noteq> item_id moved) pending @ moved # reviewed))"
proof -
  from assms have "item_id moved \<notin> set (ids reviewed)"
    by (auto simp: ids_append)
  moreover have "item_id moved \<notin>
      set (ids (filter (\<lambda>item. item_id item \<noteq> item_id moved) pending))"
    by (rule id_filtered_out)
  moreover from assms(1)
  have "distinct (ids (filter (\<lambda>item. item_id item \<noteq> item_id moved) pending @ reviewed))"
    by (rule distinct_ids_filter)
  ultimately show ?thesis
    by (auto simp: ids_def)
qed

lemma unique_ids_mark_end:
  assumes "unique_ids st" and "lookup_current seen itemId st"
  shows "unique_ids (handleMarkReviewed_end seen itemId outcome st)"
proof (cases outcome)
  case (Inl err)
  with assms(1) show ?thesis
    by (simp add: handleMarkReviewed_end_def)
next
  case (Inr ack)
  show ?thesis
  proof (cases "find (\<lambda>item. item_id item = itemId) seen")
    case None
    with assms(1) distinct_ids_filter Inr show ?thesis
      by (simp add: handleMarkReviewed_end_def unique_ids_def)
  next
    case (Some moved)
    then have same: "item_id moved = itemId"
      by (auto simp: find_Some_iff)
    from assms(2) Some have "itemId \<in> set (ids (reviewQueueItems st))"
      by (simp add: lookup_current_def)
    with assms(1) same
    have "distinct (ids (filter (\<lambda>item. item_id item \<noteq> itemId) (reviewQueueItems st) @
        moved # reviewedItems st))"
      using distinct_ids_move [of "reviewQueueItems st" "reviewedItems st" moved]
      by (simp add: unique_ids_def)
    with Inr Some show ?thesis
      by (simp add: handleMarkReviewed_end_def unique_ids_def)
  qed
qed

lemma unique_ids_delete_end:
  assumes "unique_ids st"
  shows "unique_ids (handleDelete_end itemId outcome st)"
  using assms distinct_ids_filter
  by (cases outcome) (simp_all add: handleDelete_end_def unique_ids_def)

lemma unique_ids_fetch_end:
  assumes "unique_ids st"
    and "case outcome of Inl err \<Rightarrow> True | Inr resp \<Rightarrow> fresh_page isReviewed cursor st resp"
  shows "unique_ids (fetchItems_end isReviewed cursor outcome st)"
proof (cases outcome)
  case (Inl err)
  with assms(1) show ?thesis
    by (simp add: unique_ids_def)
next
  case (Inr resp)
  with assms show ?thesis
    by (cases isReviewed; cases "truthy cursor")
       (auto simp: unique_ids_def fresh_page_def retained_def fetchItems_end_def ids_append)
qed

lemma unique_ids_start:
  assumes "unique_ids (store w)"
  shows "unique_ids (store (start ev w))"
proof (cases ev)
  case (FetchPage isReviewed cursor)
  with assms show ?thesis
    by (simp add: start_fetch_def fetchItems_begin_def unique_ids_def)
next
  case (Scroll vp)
  with assms show ?thesis
    by (cases "handleScroll_call vp (store w)")
       (auto simp: start_fetch_def fetchItems_begin_def unique_ids_def)
next
  case (TabChange activeIndex)
  with assms show ?thesis
    by (simp add: handleTabChange_def unique_ids_def)
next
  case (SelectItem it)
  with assms show ?thesis
    by (simp add: selectItem_def unique_ids_def)
next
  case CloseDetail
  with assms show ?thesis
    by (simp add: closeDetail_def unique_ids_def)
qed (use assms in simp_all)

lemma unique_ids_settle_query:
  assumes "unique_ids (store w)" and "tidy_step (SettleQuery i outcome) w"
  shows "unique_ids (store (settle_query i outcome w))"
proof (cases "awaited i w")
  case None
  with assms(1) show ?thesis
    by (simp add: settle_query_def)
next
  case (Some call)
  show ?thesis
  proof (cases call)
    case (Fetching isReviewed cursor q)
    with Some assms(2)
    have "case outcome of Inl err \<Rightarrow> True | Inr resp \<Rightarrow> fresh_page isReviewed cursor (store w) resp"
      by (cases outcome) simp_all
    with assms(1) have "unique_ids (fetchItems_end isReviewed cursor outcome (store w))"
      by (rule unique_ids_fetch_end)
    with Some Fetching show ?thesis
      by (simp add: settle_query_def)
  next
    case (Marking seen itemId a)
    with Some assms(1) show ?thesis
      by (simp add: settle_query_def)
  next
    case (Deleting itemId a)
    with Some assms(1) show ?thesis
      by (simp add: settle_query_def)
  qed
qed

lemma unique_ids_settle_action:
  assumes "unique_ids (store w)" and "tidy_step (SettleAction i outcome) w"
  shows "unique_ids (store (settle_action i outcome w))"
proof (cases "awaited i w")
  case None
  with assms(1) show ?thesis
    by (simp add: settle_action_def)
next
  case (Some call)
  show ?thesis
  proof (cases call)
    case (Fetching isReviewed cursor q)
    with Some assms(1) show ?thesis
      by (simp add: settle_action_def)
  next
    case (Marking seen itemId a)
    have "unique_ids (handleMarkReviewed_end seen itemId outcome (store w))"
    proof (cases outcome)
      case (Inl err)
      with assms(1) show ?thesis
        by (simp add: handleMarkReviewed_end_def)
    next
      case (Inr ack)
      with Some Marking assms(2) have "lookup_current seen itemId (store w)"
        by simp
      with assms(1) show ?thesis
        by (rule unique_ids_mark_end)
    qed
    with Some Marking show ?thesis
      by (simp add: settle_action_def)
  next
    case (Deleting itemId a)
    with Some assms(1) show ?thesis
      by (simp add: settle_action_def unique_ids_delete_end)
  qed
qed

lemma unique_ids_advance:
  assumes "unique_ids (store w)" and "tidy_step s w"
  shows "unique_ids (store (advance s w))"
  using assms
  by (cases s) (simp_all add: unique_ids_start unique_ids_settle_query unique_ids_settle_action)

lemma unique_ids_play:
  "unique_ids (store w) \<Longrightarrow> tidy_play steps w \<Longrightarrow> unique_ids (store (play steps w))"
proof (induction steps arbitrary: w)
  case Nil
  then show ?case by simp
next
  case (Cons s steps)
  from Cons.prems have "unique_ids (store (advance s w))"
    by (simp add: unique_ids_advance)
  with Cons.IH Cons.prems show ?case
    by simp
qed

text \<open>
  Claim C4, as stated, fails in two ways. Nothing in the store compares the ids of a
  fetched page with the ids it already holds: the two successful page loads of
  \<open>drifted_load\<close>, starting from the initial state, leave \<open>m2\<close> twice in the pending
  queue. And with pages that do not overlap, the two clicks of \<open>double_click\<close> followed
  by the second acknowledgment leave \<open>m1\<close> twice in the reviewed queue.
\<close>

theorem unique_ids_counterexample:
  "\<not> unique_ids
       (run [(page_client [sample_item ''m1'', sample_item ''m2''] (Some ''c1''), FetchPage False None),
             (page_client [sample_item ''m2'', sample_item ''m3''] None, Scroll at_bottom)]
          initial_state) \<and>
   \<not> unique_ids
       (store (play (startup @ double_click @ [SettleAction 0 (Inr ())]) initial_world))"
proof -
  have "\<not> unique_ids
       (run [(page_client [sample_item ''m1'', sample_item ''m2''] (Some ''c1''), FetchPage False None),
             (page_client [sample_item ''m2'', sample_item ''m3''] None, Scroll at_bottom)]
          initial_state)"
    using drifted_load_state
    by (simp add: drifted_load_def unique_ids_def ids_def initial_state_def sample_item_def)
  moreover have "\<not> unique_ids
       (store (play (startup @ double_click @ [SettleAction 0 (Inr ())]) initial_world))"
    unfolding double_click_settled
    by (simp add: unique_ids_def ids_def two_queues_def initial_state_def sample_item_def)
  ultimately show ?thesis
    by blast
qed

text \<open>
  Claim C4, amended. The operations may overlap and their calls settle in any order.
  If every page a successful fetch delivers is fresh in the state it arrives in (its ids
  pairwise different, and different from the ids of the items the fetch keeps), and the
  lookup of every acknowledged \<open>handleMarkReviewed\<close> is current (the item it finds in its
  captured list, if any, has an id still in the pending queue), then in every state of a
  play from the initial state each id is listed at most once across the two queues.
\<close>

theorem unique_ids_reachable:
  assumes "tidy_play steps initial_world"
  shows "unique_ids (store (play steps initial_world))"
proof -
  have "unique_ids (store initial_world)"
    by (simp add: unique_ids_def initial_world_def initial_state_def ids_def)
  then show ?thesis
    using assms by (rule unique_ids_play)
qed

theorem unique_ids_reachable_witness:
  "tidy_play (startup @ busy_session) initial_world \<and>
   unique_ids (store (play (startup @ busy_session) initial_world)) \<and>
   ids (reviewQueueItems (store (play (startup @ busy_session) initial_world))) = [] \<and>
   ids (reviewedItems (store (play (startup @ busy_session) initial_world))) =
     [''m1'', ''r1'', ''r2'']"
proof -
  have tidy: "tidy_play (startup @ busy_session) initial_world"
    by (auto simp: startup_def busy_session_def initial_world_def initial_state_def
          start_fetch_def fetchItems_begin_def fetchItems_end_def settle_query_def
          settle_action_def awaited_def without_def fresh_page_def retained_def
          lookup_current_def handleMarkReviewed_end_def handleMarkReviewed_call_def
          handleDelete_end_def handleDelete_call_def handleTabChange_def handleScroll_call_def
          at_bottom_def truthy_def ids_def sample_item_def)
  have final: "play (startup @ busy_session) initial_world =
      \<lparr>store = two_queues
         \<lparr>reviewQueueItems := [],
          reviewedItems := [sample_item ''m1'', sample_item ''r1'', sample_item ''r2''],
          reviewedCursor := None\<rparr>,
       awaiting = []\<rparr>"
    unfolding play_append startup_world
    by (simp add: busy_session_def two_queues_def initial_state_def
          start_fetch_def fetchItems_begin_def fetchItems_end_def settle_query_def
          settle_action_def awaited_def without_def
          handleMarkReviewed_end_def handleMarkReviewed_call_def
          handleDelete_end_def handleDelete_call_def handleTabChange_def handleScroll_call_def
          at_bottom_def truthy_def sample_item_def)
  have listed: "ids (reviewQueueItems (store (play (startup @ busy_session) initial_world))) = [] \<and>
      ids (reviewedItems (store (play (startup @ busy_session) initial_world))) =
        [''m1'', ''r1'', ''r2'']"
    unfolding final by (simp add: ids_def sample_item_def)
  from unique_ids_reachable [OF tidy] tidy listed show ?thesis
    by blast
qed

subsection \<open>The scroll trigger\<close>

lemma handleScroll_call_Some:
  "handleScroll_call w st = Some (q, c) \<Longrightarrow>
   \<not> isLoading st \<and> innerHeight w + scrollY w > scrollHeight w - 200 \<and>
   q = (activeTab st = 1) \<and> c = queue_cursor q st \<and> truthy c"
  by (auto simp: handleScroll_call_def queue_cursor_def Let_def split: if_splits)

lemma handleScroll_call_present:
  "handleScroll_call w st = Some (q, c) \<Longrightarrow> truthy (queue_cursor q st)"
  by (auto simp: handleScroll_call_def queue_cursor_def Let_def split: if_splits)

lemma list_all_without:
  "list_all P calls \<Longrightarrow> list_all P (without i calls)"
  using set_without [of i calls] by (auto simp: list_all_iff)

lemma quiet_start:
  assumes "\<not> truthy (queue_cursor q (store w))"
    and "list_all (\<lambda>call. \<not> fetch_for q call) (awaiting w)"
    and "\<not> direct_fetch q ev"
  shows "queue_cursor q (store (start ev w)) = queue_cursor q (store w) \<and>
         list_all (\<lambda>call. \<not> fetch_for q call) (awaiting (start ev w))"
proof (cases ev)
  case (FetchPage isReviewed cursor)
  with assms show ?thesis
    by (simp add: start_fetch_def fetchItems_begin_def)
next
  case (Scroll vp)
  show ?thesis
  proof (cases "handleScroll_call vp (store w)")
    case None
    with Scroll assms show ?thesis
      by simp
  next
    case (Some call)
    obtain isReviewedTab currentCursor where call: "call = (isReviewedTab, currentCursor)"
      by (cases call)
    with Some have "truthy (queue_cursor isReviewedTab (store w))"
      using handleScroll_call_present [of vp "store w" isReviewedTab currentCursor] by simp
    with assms(1) have "isReviewedTab \<noteq> q"
      by blast
    with Scroll Some call assms(2) show ?thesis
      by (simp add: start_fetch_def fetchItems_begin_def)
  qed
next
  case (MarkReviewed itemId)
  with assms show ?thesis by simp
next
  case (Delete itemId)
  with assms show ?thesis by simp
next
  case (TabChange activeIndex)
  with assms show ?thesis by (simp add: handleTabChange_def queue_cursor_def)
next
  case (SelectItem it)
  with assms show ?thesis by (simp add: selectItem_def queue_cursor_def)
next
  case CloseDetail
  with assms show ?thesis by (simp add: closeDetail_def queue_cursor_def)
qed

lemma queue_cursor_fetch_end_other:
  "isReviewed \<noteq> q \<Longrightarrow>
   queue_cursor q (fetchItems_end isReviewed cursor outcome st) = queue_cursor q st"
  by (cases outcome) auto

lemma quiet_settle_query:
  assumes "list_all (\<lambda>call. \<not> fetch_for q call) (awaiting w)"
  shows "queue_cursor q (store (settle_query i outcome w)) = queue_cursor q (store w) \<and>
         list_all (\<lambda>call. \<not> fetch_for q call) (awaiting (settle_query i outcome w))"
proof (cases "awaited i w")
  case None
  with assms show ?thesis
    by (simp add: settle_query_def)
next
  case (Some call)
  then have "call \<in> set (awaiting w)"
    by (rule awaited_in)
  with assms have other: "\<not> fetch_for q call"
    by (simp add: list_all_iff)
  from assms have rest: "list_all (\<lambda>call. \<not> fetch_for q call) (without i (awaiting w))"
    by (rule list_all_without)
  from Some other rest assms show ?thesis
    by (cases call) (simp_all add: settle_query_def queue_cursor_fetch_end_other)
qed

lemma quiet_settle_action:
  assumes "list_all (\<lambda>call. \<not> fetch_for q call) (awaiting w)"
  shows "queue_cursor q (store (settle_action i outcome w)) = queue_cursor q (store w) \<and>
         list_all (\<lambda>call. \<not> fetch_for q call) (awaiting (settle_action i outcome w))"
proof (cases "awaited i w")
  case None
  with assms show ?thesis
    by (simp add: settle_action_def)
next
  case (Some call)
  from assms have rest: "list_all (\<lambda>call. \<not> fetch_for q call) (without i (awaiting w))"
    by (rule list_all_without)
  from Some rest assms show ?thesis
    by (cases call)
       (simp_all add: settle_action_def queue_cursor_def handleMarkReviewed_end_def
          handleDelete_end_def Let_def split: sum.split option.split)
qed

lemma quiet_advance:
  assumes "\<not> truthy (queue_cursor q (store w))"
    and "list_all (\<lambda>call. \<not> fetch_for q call) (awaiting w)"
    and "\<not> direct_fetch_step q s"
  shows "queue_cursor q (store (advance s w)) = queue_cursor q (store w) \<and>
         list_all (\<lambda>call. \<not> fetch_for q call) (awaiting (advance s w))"
  using assms
  by (cases s) (simp_all add: quiet_start quiet_settle_query quiet_settle_action)

lemma quiet_play:
  "\<not> truthy (queue_cursor q (store w)) \<Longrightarrow>
   list_all (\<lambda>call. \<not> fetch_for q call) (awaiting w) \<Longrightarrow>
   list_all (\<lambda>s. \<not> direct_fetch_step q s) steps \<Longrightarrow>
   queue_cursor q (store (play steps w)) = queue_cursor q (store w) \<and>
   list_all (\<lambda>call. \<not> fetch_for q call) (awaiting (play steps w))"
proof (induction steps arbitrary: w)
  case Nil
  then show ?case by simp
next
  case (Cons s steps)
  from Cons.prems have step: "queue_cursor q (store (advance s w)) = queue_cursor q (store w) \<and>
      list_all (\<lambda>call. \<not> fetch_for q call) (awaiting (advance s w))"
    by (intro quiet_advance) simp_all
  with Cons.prems have "queue_cursor q (store (play steps (advance s w))) =
      queue_cursor q (store (advance s w)) \<and>
      list_all (\<lambda>call. \<not> fetch_for q call) (awaiting (play steps (advance s w)))"
    by (intro Cons.IH) simp_all
  with step show ?case
    by simp
qed

lemma overlapping_scrolls_world:
  "play overlapping_scrolls initial_world =
     \<lparr>store = initial_state
        \<lparr>reviewQueueItems := [sample_item ''m1'', sample_item ''m2''],
         reviewedItems := [sample_item ''r1'']\<rparr>,
      awaiting = [Fetching False (Some ''c1'')
        (snd (fetchItems_begin False (Some ''c1'') initial_state))]\<rparr>"
  by (simp add: overlapping_scrolls_def initial_world_def initial_state_def start_fetch_def
        fetchItems_begin_def fetchItems_end_def settle_query_def awaited_def without_def
        handleScroll_call_def at_bottom_def truthy_def)

text \<open>
  Claim C5, as stated, fails in its second half. The loading flag is one boolean, cleared
  by whichever fetch settles: after \<open>overlapping_scrolls\<close> the pending queue's cursor is
  absent after a fetch and a firing of \<open>handleScroll\<close> issues nothing, but a fetch of that
  queue is still outstanding. Its answer installs the cursor \<open>c2\<close>, and the next firing
  issues a fetch for the pending queue, with no start-up fetch in between.
\<close>

theorem scroll_fetch_counterexample:
  "\<not> truthy (queue_cursor False (store (play overlapping_scrolls initial_world))) \<and>
   handleScroll_call at_bottom (store (play overlapping_scrolls initial_world)) = None \<and>
   handleScroll_call at_bottom
     (store (play (overlapping_scrolls @
        [SettleQuery 0 (Inr \<lparr>items = [sample_item ''m2'', sample_item ''m3''],
                              resp_next = Some ''c2''\<rparr>)]) initial_world)) =
     Some (False, Some ''c2'')"
  unfolding play_append overlapping_scrolls_world
  by (simp add: initial_state_def queue_cursor_def truthy_def handleScroll_call_def at_bottom_def
        settle_query_def awaited_def without_def fetchItems_end_def)

text \<open>
  Claim C5, amended. A firing of \<open>handleScroll\<close> issues a fetch only when the loading flag
  is clear, and then for the active tab's queue with that queue's cursor, which is present.
  Once a queue's cursor is absent and no fetch for that queue is outstanding, the cursor
  stays absent, no fetch for the queue becomes outstanding and no firing of
  \<open>handleScroll\<close> issues one, through any play (its calls may overlap and settle in any
  order) that makes no direct (start-up) fetch for the queue.
\<close>

theorem scroll_fetch_gated:
  "(handleScroll_call vp st = Some (q, c) \<longrightarrow>
      \<not> isLoading st \<and> q = (activeTab st = 1) \<and> c = queue_cursor q st \<and> truthy c) \<and>
   (\<not> truthy (queue_cursor q (store w)) \<and>
    list_all (\<lambda>call. \<not> fetch_for q call) (awaiting w) \<and>
    list_all (\<lambda>s. \<not> direct_fetch_step q s) steps \<longrightarrow>
      \<not> truthy (queue_cursor q (store (play steps w))) \<and>
      list_all (\<lambda>call. \<not> fetch_for q call) (awaiting (play steps w)) \<and>
      (\<forall>vp' c'. handleScroll_call vp' (store (play steps w)) \<noteq> Some (q, c')))"
proof (intro conjI impI)
  assume "handleScroll_call vp st = Some (q, c)"
  then have gate: "\<not> isLoading st \<and> innerHeight vp + scrollY vp > scrollHeight vp - 200 \<and>
      q = (activeTab st = 1) \<and> c = queue_cursor q st \<and> truthy c"
    by (rule handleScroll_call_Some)
  from gate show "\<not> isLoading st" by blast
  from gate show "q = (activeTab st = 1)" by blast
  from gate show "c = queue_cursor q st" by blast
  from gate show "truthy c" by blast
next
  assume quiet: "\<not> truthy (queue_cursor q (store w)) \<and>
      list_all (\<lambda>call. \<not> fetch_for q call) (awaiting w) \<and>
      list_all (\<lambda>s. \<not> direct_fetch_step q s) steps"
  then have kept: "queue_cursor q (store (play steps w)) = queue_cursor q (store w) \<and>
      list_all (\<lambda>call. \<not> fetch_for q call) (awaiting (play steps w))"
    by (intro quiet_play) simp_all
  with quiet show "\<not> truthy (queue_cursor q (store (play steps w)))"
    by simp
  from kept show "list_all (\<lambda>call. \<not> fetch_for q call) (awaiting (play steps w))"
    by simp
  show "\<forall>vp' c'. handleScroll_call vp' (store (play steps w)) \<noteq> Some (q, c')"
  proof (intro allI notI)
    fix vp' c'
    assume "handleScroll_call vp' (store (play steps w)) = Some (q, c')"
    then have "truthy (queue_cursor q (store (play steps w)))"
      by (rule handleScroll_call_present)
    with kept quiet show False
      by simp
  qed
qed

theorem scroll_fetch_gated_witness:
  "handleScroll_call at_bottom (handleTabChange 1 two_queues) = Some (True, Some ''c7'') \<and>
   \<not> isLoading (handleTabChange 1 two_queues) \<and>
   activeTab (handleTabChange 1 two_queues) = 1 \<and>
   queue_cursor True (handleTabChange 1 two_queues) = Some ''c7'' \<and>
   truthy (Some ''c7'') \<and>
   \<not> truthy (queue_cursor False (store (play startup initial_world))) \<and>
   list_all (\<lambda>call. \<not> fetch_for False call) (awaiting (play startup initial_world)) \<and>
   list_all (\<lambda>s. \<not> direct_fetch_step False s) busy_session \<and>
   \<not> truthy (queue_cursor False (store (play busy_session (play startup initial_world)))) \<and>
   handleScroll_call at_bottom (store (play busy_session (play startup initial_world))) = None \<and>
   ids (reviewedItems (store (play busy_session (play startup initial_world)))) =
     [''m1'', ''r1'', ''r2'']"
proof -
  have final: "play busy_session (play startup initial_world) =
      \<lparr>store = two_queues
         \<lparr>reviewQueueItems := [],
          reviewedItems := [sample_item ''m1'', sample_item ''r1'', sample_item ''r2''],
          reviewedCursor := None\<rparr>,
       awaiting = []\<rparr>"
    unfolding startup_world
    by (simp add: busy_session_def two_queues_def initial_state_def
          start_fetch_def fetchItems_begin_def fetchItems_end_def settle_query_def
          settle_action_def awaited_def without_def
          handleMarkReviewed_end_def handleMarkReviewed_call_def
          handleDelete_end_def handleDelete_call_def handleTabChange_def handleScroll_call_def
          at_bottom_def truthy_def sample_item_def)
  have fires: "handleScroll_call at_bottom (handleTabChange 1 two_queues) = Some (True, Some ''c7'')"
    by (simp add: two_queues_def initial_state_def handleTabChange_def handleScroll_call_def
          at_bottom_def truthy_def)
  have quiet: "\<not> truthy (queue_cursor False (store (play startup initial_world))) \<and>
      list_all (\<lambda>call. \<not> fetch_for False call) (awaiting (play startup initial_world)) \<and>
      list_all (\<lambda>s. \<not> direct_fetch_step False s) busy_session"
    unfolding startup_world
    by (simp add: busy_session_def two_queues_def initial_state_def queue_cursor_def truthy_def)
  have gate: "\<not> isLoading (handleTabChange 1 two_queues) \<and>
      True = (activeTab (handleTabChange 1 two_queues) = 1) \<and>
      Some ''c7'' = queue_cursor True (handleTabChange 1 two_queues) \<and> truthy (Some ''c7'')"
    using scroll_fetch_gated [of at_bottom "handleTabChange 1 two_queues" True "Some ''c7''"] fires
    by blast
  have later: "\<not> truthy (queue_cursor False (store (play busy_session (play startup initial_world))))"
    using scroll_fetch_gated [of at_bottom two_queues False None "play startup initial_world"
        busy_session] quiet
    by blast
  have none: "handleScroll_call at_bottom (store (play busy_session (play startup initial_world))) = None"
    unfolding final
    by (simp add: two_queues_def initial_state_def handleScroll_call_def at_bottom_def truthy_def)
  have listed: "ids (reviewedItems (store (play busy_session (play startup initial_world)))) =
      [''m1'', ''r1'', ''r2'']"
    unfolding final
    by (simp add: ids_def sample_item_def)
  from gate have tab: "activeTab (handleTabChange 1 two_queues) = 1"
    by blast
  from gate have cur: "queue_cursor True (handleTabChange 1 two_queues) = Some ''c7''"
    by (intro sym [of "Some ''c7''"]) blast
  from gate fires quiet later none listed tab cur show ?thesis
    by blast
qed

end
